theory Spec2Isabelle
  imports Complex_Main
begin

section \<open>The speech-to-audio bridge \<open>WebSpeechSynthesis\<close>\<close>

text \<open>
  The class \<open>WebSpeechSynthesis\<close> (src/components/ThreeD/audio/WebSpeechSynthesis.ts) is a
  single-threaded, callback-driven object. Its fields become a record, every method a
  function on that record, and every callback the class registers with the speech engine
  or the audio toolkit (\<open>utterance.onend\<close>, \<open>utterance.onerror\<close>, the player's
  \<open>onload\<close>, \<open>synth.onvoiceschanged\<close>, the continuation of \<open>audioContext.resume()\<close>)
  a function that the host's event loop may run later. JavaScript numbers are modelled as
  reals, a thrown exception as a value of type \<open>error\<close>.
\<close>

subsection \<open>Errors\<close>

text \<open>
  One constructor for each \<open>new Error(...)\<close> of the source, named after the spec's
  taxonomy, and \<open>TypeError\<close> for what the runtime throws when a method is called on
  \<open>null\<close>:
  \<^item> \<open>EnvironmentUnavailable\<close>: 'Speech generation is not available on the server side.'
  \<^item> \<open>AlreadyInProgress\<close>: 'Speech generation already in progress'
  \<^item> \<open>ComponentsUninitialized\<close>: 'Speech synthesis components are not initialized.'
  \<^item> \<open>Cancelled\<close>: 'Speech generation was cancelled'
  \<^item> \<open>SynthesisFailed code\<close>: 'Speech synthesis failed: ' followed by \<open>event.error\<close>
  \<^item> \<open>PlayerOrAnalyserUninitialized\<close>: 'Player or analyser not initialized.'
  \<^item> \<open>RoutingFailed\<close>: 'Failed to set up audio routing for SpeechSynthesis.'
\<close>

datatype error =
    EnvironmentUnavailable
  | AlreadyInProgress
  | ComponentsUninitialized
  | Cancelled
  | SynthesisFailed string
  | PlayerOrAnalyserUninitialized
  | RoutingFailed
  | TypeError

subsection \<open>The collaborators: speech engine and audio graph\<close>

text \<open>
  The platform objects are opaque to the class; each is a record of what the class can
  command or read. Their methods are total updates: the model assumes that a call on a
  present collaborator does not throw, except \<open>audioContext.resume()\<close>, whose
  \<open>try\<close>/\<open>catch\<close> in the source is kept as a branch.
\<close>

record speech_utterance =
  u_text :: string
  u_voice :: "string option"
  u_rate :: real

record speech_synth =
  voices :: "string list"
  spoken :: "speech_utterance list"
  cancels :: nat
  onvoiceschanged :: bool

record tone_player =
  pl_id :: nat
  playbackRate :: real
  loop :: bool
  connected :: bool
  toDestination :: bool
  stops :: nat
  seeks :: "real list"
  pl_disposed :: bool

record tone_analyser =
  an_id :: nat
  waveform :: "real list"
  an_disposed :: bool

record audio_context =
  closed :: bool
  resume_throws :: bool

datatype media_stream_destination = MediaStreamDestination

subsection \<open>Promises\<close>

text \<open>
  The value a successful \<open>generateSpeech\<close> resolves with: the two handles (object
  identities) and the estimated duration.
\<close>

record speech_result =
  res_player :: nat
  res_analyser :: nat
  duration :: real

datatype settlement = Pending | Resolved speech_result | Rejected error

text \<open>
  One entry for each promise created by \<open>new Promise\<close> in \<open>generateSpeech\<close>: the text
  the closures of that call captured, the promise's settlement, and whether the executor
  got as far as registering the call's callbacks.
\<close>

record call =
  c_text :: string
  settled :: settlement
  wired :: bool

subsection \<open>The session\<close>

record session =
  has_window :: bool
  synth :: "speech_synth option"
  utterance :: "speech_utterance option"
  player :: "tone_player option"
  analyser :: "tone_analyser option"
  audioContext :: "audio_context option"
  mediaStreamDestination :: "media_stream_destination option"
  isGenerating :: bool
  isCancelled :: bool
  calls :: "call list"
  resume_pending :: nat

text \<open>
  What the host offers when the instance is constructed: whether \<open>window\<close> is defined,
  whether \<open>window.speechSynthesis\<close> is, the voices the engine reports, and whether
  \<open>resume()\<close> throws.
\<close>

record environment =
  env_window :: bool
  env_speech :: bool
  env_voices :: "string list"
  env_resume_throws :: bool

definition initializeBrowserComponents :: "environment \<Rightarrow> session \<Rightarrow> session" where
  "initializeBrowserComponents env s =
     s\<lparr>synth := (if env_speech env
                  then Some \<lparr>voices = env_voices env, spoken = [], cancels = 0,
                             onvoiceschanged = False\<rparr>
                  else None),
       audioContext := Some \<lparr>closed = False, resume_throws = env_resume_throws env\<rparr>,
       mediaStreamDestination := Some MediaStreamDestination,
       analyser := Some \<lparr>an_id = 0, waveform = replicate 256 0, an_disposed = False\<rparr>\<rparr>"

definition new_WebSpeechSynthesis :: "environment \<Rightarrow> session" where
  "new_WebSpeechSynthesis env =
     (let s = \<lparr>has_window = env_window env, synth = None, utterance = None, player = None,
               analyser = None, audioContext = None, mediaStreamDestination = None,
               isGenerating = False, isCancelled = False, calls = [], resume_pending = 0\<rparr>
      in if env_window env then initializeBrowserComponents env s else s)"

subsection \<open>Settling a promise\<close>

text \<open>
  \<open>resolve\<close> and \<open>reject\<close> of a JavaScript promise act on a pending promise only: the
  first settlement wins and every later call is ignored.
\<close>

definition promise_of :: "session \<Rightarrow> nat \<Rightarrow> settlement option" where
  "promise_of s c = (if c < length (calls s) then Some (settled (calls s ! c)) else None)"

definition is_wired :: "session \<Rightarrow> nat \<Rightarrow> bool" where
  "is_wired s c = (c < length (calls s) \<and> wired (calls s ! c))"

definition settle :: "nat \<Rightarrow> settlement \<Rightarrow> session \<Rightarrow> session" where
  "settle c v s =
     (if c < length (calls s) \<and> settled (calls s ! c) = Pending
      then s\<lparr>calls := (calls s)[c := (calls s ! c)\<lparr>settled := v\<rparr>]\<rparr>
      else s)"

definition resolve :: "nat \<Rightarrow> speech_result \<Rightarrow> session \<Rightarrow> session" where
  "resolve c v s = settle c (Resolved v) s"

definition reject :: "nat \<Rightarrow> error \<Rightarrow> session \<Rightarrow> session" where
  "reject c e s = settle c (Rejected e) s"

subsection \<open>The callbacks registered by \<open>generateSpeech\<close>\<close>

text \<open>\<open>this.synth!.speak(this.utterance!)\<close>; on a missing object the callback dies alone.\<close>

definition speak :: "session \<Rightarrow> session" where
  "speak s =
     (case synth s of
        None \<Rightarrow> s
      | Some sy \<Rightarrow>
          (case utterance s of
             None \<Rightarrow> s
           | Some u \<Rightarrow> s\<lparr>synth := Some (sy\<lparr>spoken := spoken sy @ [u]\<rparr>)\<rparr>))"

definition utterance_onend :: "nat \<Rightarrow> session \<Rightarrow> session" where
  "utterance_onend c s =
     (let s1 = s\<lparr>isGenerating := False\<rparr>
      in if isCancelled s1 then reject c Cancelled s1 else s1)"

definition utterance_onerror :: "nat \<Rightarrow> string \<Rightarrow> session \<Rightarrow> session" where
  "utterance_onerror c code s = reject c (SynthesisFailed code) (s\<lparr>isGenerating := False\<rparr>)"

definition estimatedDuration :: "string \<Rightarrow> real" where
  "estimatedDuration txt = real (length txt) / 5"

definition player_onload :: "nat \<Rightarrow> session \<Rightarrow> session" where
  "player_onload c s =
     (case player s of
        None \<Rightarrow> reject c PlayerOrAnalyserUninitialized s
      | Some p \<Rightarrow>
          (case analyser s of
             None \<Rightarrow> reject c PlayerOrAnalyserUninitialized s
           | Some a \<Rightarrow>
               resolve c \<lparr>res_player = pl_id p, res_analyser = an_id a,
                          duration = estimatedDuration (c_text (calls s ! c))\<rparr>
                 (s\<lparr>player := Some (p\<lparr>connected := True, toDestination := True\<rparr>)\<rparr>)))"

definition synth_onvoiceschanged :: "session \<Rightarrow> session" where
  "synth_onvoiceschanged s =
     (case synth s of
        None \<Rightarrow> s
      | Some sy \<Rightarrow>
          (if length (voices sy) > 0
           then (case utterance s of
                   None \<Rightarrow> s
                 | Some u \<Rightarrow> speak (s\<lparr>utterance := Some (u\<lparr>u_voice := Some (voices sy ! 0)\<rparr>)\<rparr>))
           else s))"

definition resume_then :: "session \<Rightarrow> session" where
  "resume_then s = speak s"

subsection \<open>\<open>generateSpeech\<close>\<close>

text \<open>
  The body of the promise executor. \<open>c\<close> is the promise just created; the closures
  \<open>resolve\<close>, \<open>reject\<close> and \<open>text\<close> of the source are the call's index and its entry.
  A \<open>resume()\<close> that throws is caught and rejects the promise; on a closed context it
  returns a rejected promise, whose continuation never runs; otherwise the continuation
  is left pending for the event loop.
\<close>

definition executor :: "nat \<Rightarrow> string \<Rightarrow> session \<Rightarrow> session" where
  "executor c txt s =
     (if synth s = None \<or> audioContext s = None \<or> mediaStreamDestination s = None
      then reject c ComponentsUninitialized s
      else
        let s1 = s\<lparr>utterance := Some \<lparr>u_text = txt, u_voice = None, u_rate = 1\<rparr>,
                   calls := (calls s)[c := (calls s ! c)\<lparr>wired := True\<rparr>]\<rparr>;
            s2 = s1\<lparr>player := Some \<lparr>pl_id = c, playbackRate = 1, loop = False,
                                     connected = False, toDestination = False, stops = 0,
                                     seeks = [], pl_disposed = False\<rparr>\<rparr>;
            s3 = s2\<lparr>synth := Some ((the (synth s2))\<lparr>onvoiceschanged := True\<rparr>)\<rparr>
        in if resume_throws (the (audioContext s3))
           then reject c RoutingFailed s3
           else if closed (the (audioContext s3)) then s3
           else s3\<lparr>resume_pending := Suc (resume_pending s3)\<rparr>)"

text \<open>
  An \<open>async\<close> function that throws returns a promise that is already rejected: the result
  \<open>Inl e\<close>. Otherwise the result is the index of the promise the call created.
\<close>

definition generateSpeech :: "string \<Rightarrow> session \<Rightarrow> (error + nat) \<times> session" where
  "generateSpeech txt s =
     (if \<not> has_window s then (Inl EnvironmentUnavailable, s)
      else if isGenerating s then (Inl AlreadyInProgress, s)
      else
        let s1 = s\<lparr>isGenerating := True, isCancelled := False\<rparr>;
            c = length (calls s1);
            s2 = s1\<lparr>calls := calls s1 @ [\<lparr>c_text = txt, settled = Pending, wired = False\<rparr>]\<rparr>
        in (Inr c, executor c txt s2))"

subsection \<open>The playback control surface\<close>

definition getPlayer :: "session \<Rightarrow> tone_player option" where
  "getPlayer s = player s"

definition getAnalyser :: "session \<Rightarrow> tone_analyser option" where
  "getAnalyser s = analyser s"

definition seek :: "real \<Rightarrow> session \<Rightarrow> session" where
  "seek time s =
     (case player s of
        None \<Rightarrow> s
      | Some p \<Rightarrow> s\<lparr>player := Some (p\<lparr>seeks := seeks p @ [time]\<rparr>)\<rparr>)"

definition stop_player :: "session \<Rightarrow> session" where
  "stop_player s =
     (case player s of
        None \<Rightarrow> s
      | Some p \<Rightarrow> s\<lparr>player := Some (p\<lparr>stops := Suc (stops p)\<rparr>)\<rparr>)"

text \<open>A method that throws returns the error and the state it had reached.\<close>

definition stop :: "session \<Rightarrow> error option \<times> session" where
  "stop s =
     (if isGenerating s
      then (case synth s of
              None \<Rightarrow> (Some TypeError, s\<lparr>isCancelled := True\<rparr>)
            | Some sy \<Rightarrow>
                (None, stop_player (s\<lparr>isCancelled := True,
                                      synth := Some (sy\<lparr>cancels := Suc (cancels sy)\<rparr>)\<rparr>)))
      else (None, stop_player s))"

definition getWaveformData :: "session \<Rightarrow> error + real list" where
  "getWaveformData s =
     (case analyser s of
        None \<Rightarrow> Inl TypeError
      | Some a \<Rightarrow> Inr (waveform a))"

definition setPitch :: "real \<Rightarrow> session \<Rightarrow> session" where
  "setPitch pitch s =
     (case player s of
        None \<Rightarrow> s
      | Some p \<Rightarrow> s\<lparr>player := Some (p\<lparr>playbackRate := max (1/2) (min 2 (1 + pitch / 12))\<rparr>)\<rparr>)"

definition setPlaybackRate :: "real \<Rightarrow> session \<Rightarrow> session" where
  "setPlaybackRate r s =
     (let s1 = (case player s of
                  None \<Rightarrow> s
                | Some p \<Rightarrow> s\<lparr>player := Some (p\<lparr>playbackRate := max (1/10) (min 10 r)\<rparr>)\<rparr>)
      in case utterance s1 of
           None \<Rightarrow> s1
         | Some u \<Rightarrow> s1\<lparr>utterance := Some (u\<lparr>u_rate := max (1/10) (min 10 r)\<rparr>)\<rparr>)"

definition dispose_player :: "session \<Rightarrow> session" where
  "dispose_player s =
     (case player s of
        None \<Rightarrow> s
      | Some p \<Rightarrow> s\<lparr>player := Some (p\<lparr>pl_disposed := True\<rparr>)\<rparr>)"

definition dispose_rest :: "session \<Rightarrow> error option \<times> session" where
  "dispose_rest s =
     (case analyser s of
        None \<Rightarrow> (Some TypeError, s)
      | Some a \<Rightarrow>
          (case audioContext s of
             None \<Rightarrow> (Some TypeError, s\<lparr>analyser := Some (a\<lparr>an_disposed := True\<rparr>)\<rparr>)
           | Some ac \<Rightarrow>
               (None, s\<lparr>analyser := Some (a\<lparr>an_disposed := True\<rparr>),
                        audioContext := Some (ac\<lparr>closed := True\<rparr>)\<rparr>)))"

text \<open>
  \<open>dispose\<close>: \<open>this.stop()\<close>, then the guarded \<open>this.player.dispose()\<close>
  (\<open>dispose_player\<close>), then the unguarded \<open>this.analyser.dispose()\<close> and
  \<open>this.audioContext.close()\<close> (\<open>dispose_rest\<close>). An exception ends the method where
  it is thrown.
\<close>

definition dispose :: "session \<Rightarrow> error option \<times> session" where
  "dispose s =
     (case fst (stop s) of
        Some e \<Rightarrow> (Some e, snd (stop s))
      | None \<Rightarrow> dispose_rest (dispose_player (snd (stop s))))"

subsection \<open>The event loop\<close>

text \<open>
  What can happen to a session, one event at a time: a method call by the owner, or a
  callback run by the host. A callback of call \<open>c\<close> exists only once the executor of
  \<open>c\<close> has registered it; \<open>synth.onvoiceschanged\<close> only once some call has set it; a
  continuation of \<open>resume()\<close> only while one is pending. A method call that throws leaves
  the state it had reached.
\<close>

datatype event =
    GenerateSpeech string
  | Stop
  | Seek real
  | SetPitch real
  | SetPlaybackRate real
  | Dispose
  | Onload nat
  | UtteranceEnd nat
  | UtteranceError nat string
  | VoicesChanged "string list"
  | ResumeDone

fun step :: "event \<Rightarrow> session \<Rightarrow> session" where
  "step (GenerateSpeech txt) s = snd (generateSpeech txt s)"
| "step Stop s = snd (stop s)"
| "step (Seek t) s = seek t s"
| "step (SetPitch p) s = setPitch p s"
| "step (SetPlaybackRate r) s = setPlaybackRate r s"
| "step Dispose s = snd (dispose s)"
| "step (Onload c) s = (if is_wired s c then player_onload c s else s)"
| "step (UtteranceEnd c) s = (if is_wired s c then utterance_onend c s else s)"
| "step (UtteranceError c code) s = (if is_wired s c then utterance_onerror c code s else s)"
| "step (VoicesChanged vs) s =
     (case synth s of
        None \<Rightarrow> s
      | Some sy \<Rightarrow>
          let s1 = s\<lparr>synth := Some (sy\<lparr>voices := vs\<rparr>)\<rparr>
          in if onvoiceschanged sy then synth_onvoiceschanged s1 else s1)"
| "step ResumeDone s =
     (if resume_pending s > 0 then resume_then (s\<lparr>resume_pending := resume_pending s - 1\<rparr>)
      else s)"

fun run :: "event list \<Rightarrow> session \<Rightarrow> session" where
  "run [] s = s"
| "run (e # es) s = run es (step e s)"

subsection \<open>Concrete hosts\<close>

text \<open>
  A browser with a speech engine and two voices, a server without \<open>window\<close>, and a
  browser whose \<open>window.speechSynthesis\<close> is undefined.
\<close>

definition browser_env :: environment where
  "browser_env = \<lparr>env_window = True, env_speech = True, env_voices = [''v0'', ''v1''],
                   env_resume_throws = False\<rparr>"

definition server_env :: environment where
  "server_env = \<lparr>env_window = False, env_speech = False, env_voices = [],
                  env_resume_throws = False\<rparr>"

definition no_speech_env :: environment where
  "no_speech_env = \<lparr>env_window = True, env_speech = False, env_voices = [],
                     env_resume_throws = False\<rparr>"

subsection \<open>The spec's \<open>clamp\<close>\<close>

text \<open>
  The spec writes the rate of \<open>setPitch\<close> as \<open>clamp(1 + pitch/12, 0.5, 2.0)\<close>: the
  value, limited to the interval from \<open>lo\<close> to \<open>hi\<close>. The source computes it with
  \<open>Math.max\<close> and \<open>Math.min\<close>.
\<close>

definition spec_clamp :: "real \<Rightarrow> real \<Rightarrow> real \<Rightarrow> real" where
  "spec_clamp x lo hi = (if x < lo then lo else if hi < x then hi else x)"

subsection \<open>Conditions on a run of events\<close>

text \<open>\<open>run_all P evs s\<close>: \<open>P\<close> holds of every event of the run, in the state it meets.\<close>

fun run_all :: "(event \<Rightarrow> session \<Rightarrow> bool) \<Rightarrow> event list \<Rightarrow> session \<Rightarrow> bool" where
  "run_all P [] s = True"
| "run_all P (e # es) s = (P e s \<and> run_all P es (step e s))"

text \<open>A \<open>generateSpeech\<close> call that passes both guards and starts a new request.\<close>

fun accepts :: "event \<Rightarrow> session \<Rightarrow> bool" where
  "accepts (GenerateSpeech t) s = (case fst (generateSpeech t s) of Inl err \<Rightarrow> False | Inr c \<Rightarrow> True)"
| "accepts e s = False"

text \<open>
  An utterance callback of a call that registered one: \<open>onend\<close> or \<open>onerror\<close> runs and
  clears \<open>isGenerating\<close>.
\<close>

fun utterance_done :: "event \<Rightarrow> session \<Rightarrow> bool" where
  "utterance_done (UtteranceEnd c) s = is_wired s c"
| "utterance_done (UtteranceError c code) s = is_wired s c"
| "utterance_done e s = False"

text \<open>A \<open>stop()\<close>, alone or inside \<open>dispose()\<close>, that finds \<open>isGenerating\<close> set.\<close>

fun cancels_request :: "event \<Rightarrow> session \<Rightarrow> bool" where
  "cancels_request Stop s = isGenerating s"
| "cancels_request Dispose s = isGenerating s"
| "cancels_request e s = False"

text \<open>
  What may happen between \<open>stop()\<close> and the \<open>onend\<close> of call \<open>c\<close> without changing
  what that \<open>onend\<close> does: anything but a newly accepted request, which clears
  \<open>isCancelled\<close>, and the \<open>onload\<close> or \<open>onerror\<close> of \<open>c\<close> itself, which settle its
  promise first.
\<close>

fun undisturbed :: "nat \<Rightarrow> event \<Rightarrow> session \<Rightarrow> bool" where
  "undisturbed c (GenerateSpeech t) s = (\<not> accepts (GenerateSpeech t) s)"
| "undisturbed c (Onload c') s = (c' \<noteq> c)"
| "undisturbed c (UtteranceError c' code) s = (c' \<noteq> c)"
| "undisturbed c e s = True"


section \<open>Basic facts\<close>

lemmas op_defs = generateSpeech_def executor_def stop_def stop_player_def dispose_def
  dispose_player_def dispose_rest_def seek_def setPitch_def setPlaybackRate_def
  player_onload_def utterance_onend_def utterance_onerror_def synth_onvoiceschanged_def
  resume_then_def speak_def resolve_def reject_def

lemmas eval_defs = new_WebSpeechSynthesis_def initializeBrowserComponents_def op_defs
  settle_def is_wired_def promise_of_def estimatedDuration_def

lemma step_has_window: "has_window (step e s) = has_window s"
  by (cases e) (auto simp: op_defs settle_def Let_def split: option.splits prod.splits)

lemma step_generating_window:
  "(isGenerating s \<longrightarrow> has_window s) \<Longrightarrow> (isGenerating (step e s) \<longrightarrow> has_window (step e s))"
  by (cases e) (auto simp: op_defs settle_def Let_def split: option.splits prod.splits if_splits)

lemma run_generating_window:
  "(isGenerating s \<longrightarrow> has_window s) \<Longrightarrow> (isGenerating (run evs s) \<longrightarrow> has_window (run evs s))"
proof (induction evs arbitrary: s)
  case Nil
  then show ?case by simp
next
  case (Cons e evs)
  from Cons.prems have "isGenerating (step e s) \<longrightarrow> has_window (step e s)"
    by (rule step_generating_window)
  then show ?case using Cons.IH by simp
qed

lemma new_idle: "isGenerating (new_WebSpeechSynthesis env) = False"
  by (simp add: new_WebSpeechSynthesis_def initializeBrowserComponents_def Let_def)

text \<open>A settled promise stays as it is, whatever happens next.\<close>

lemma step_settled_stays:
  "promise_of s c = Some st \<Longrightarrow> st \<noteq> Pending \<Longrightarrow> promise_of (step e s) c = Some st"
  by (cases e)
     (auto simp: op_defs Let_def settle_def is_wired_def promise_of_def nth_append nth_list_update
           split: option.splits prod.splits if_splits)

lemma step_resolved_by_onload:
  "promise_of (step e s) c = Some (Resolved v) \<Longrightarrow> promise_of s c \<noteq> Some (Resolved v) \<Longrightarrow>
   e = Onload c"
  by (cases e)
     (auto simp: op_defs Let_def settle_def is_wired_def promise_of_def nth_append nth_list_update
           split: option.splits prod.splits if_splits)

section \<open>The in-flight guard\<close>

text \<open>
  C1. In every state the instance can reach, if \<open>isGenerating\<close> is true then
  \<open>generateSpeech t\<close> rejects at once with \<open>AlreadyInProgress\<close> and returns the session
  as it was: no field changes and no promise of an earlier call is touched.
\<close>

theorem generateSpeech_already_in_progress:
  "isGenerating (run evs (new_WebSpeechSynthesis env)) \<Longrightarrow>
   generateSpeech t (run evs (new_WebSpeechSynthesis env)) =
     (Inl AlreadyInProgress, run evs (new_WebSpeechSynthesis env))"
proof -
  assume gen: "isGenerating (run evs (new_WebSpeechSynthesis env))"
  have "isGenerating (run evs (new_WebSpeechSynthesis env)) \<longrightarrow>
        has_window (run evs (new_WebSpeechSynthesis env))"
    by (rule run_generating_window) (simp add: new_idle)
  with gen have "has_window (run evs (new_WebSpeechSynthesis env))" by simp
  with gen show ?thesis by (simp add: generateSpeech_def)
qed

theorem generateSpeech_already_in_progress_witness:
  "isGenerating (run [GenerateSpeech ''first''] (new_WebSpeechSynthesis browser_env)) \<and>
   generateSpeech ''second'' (run [GenerateSpeech ''first''] (new_WebSpeechSynthesis browser_env)) =
     (Inl AlreadyInProgress, run [GenerateSpeech ''first''] (new_WebSpeechSynthesis browser_env))"
proof -
  have g: "isGenerating (run [GenerateSpeech ''first''] (new_WebSpeechSynthesis browser_env))"
    by (simp add: browser_env_def eval_defs)
  from g generateSpeech_already_in_progress [OF g, of "''second''"] show ?thesis by simp
qed

section \<open>Who settles the promise\<close>

lemma run_settled_stays:
  "promise_of s c = Some st \<Longrightarrow> st \<noteq> Pending \<Longrightarrow> promise_of (run evs s) c = Some st"
  by (induction evs arbitrary: s) (simp_all add: step_settled_stays)

lemma run_resolved_by_onload:
  "promise_of (run evs s) c = Some (Resolved v) \<Longrightarrow> promise_of s c \<noteq> Some (Resolved v) \<Longrightarrow>
   Onload c \<in> set evs"
proof (induction evs arbitrary: s)
  case Nil
  then show ?case by simp
next
  case (Cons e evs)
  show ?case
  proof (cases "promise_of (step e s) c = Some (Resolved v)")
    case True
    from step_resolved_by_onload [OF True Cons.prems(2)] have "e = Onload c" .
    then show ?thesis by simp
  next
    case False
    from Cons.prems(1) have "promise_of (run evs (step e s)) c = Some (Resolved v)" by simp
    from Cons.IH [OF this False] show ?thesis by simp
  qed
qed

lemma utterance_end_settles:
  "promise_of (step (UtteranceEnd c') s) c = promise_of s c \<or>
   (promise_of s c = Some Pending \<and>
    promise_of (step (UtteranceEnd c') s) c = Some (Rejected Cancelled))"
  by (auto simp: utterance_onend_def reject_def settle_def promise_of_def Let_def nth_list_update)

lemma utterance_error_settles:
  "promise_of (step (UtteranceError c' code) s) c = promise_of s c \<or>
   (promise_of s c = Some Pending \<and>
    promise_of (step (UtteranceError c' code) s) c = Some (Rejected (SynthesisFailed code)))"
  by (auto simp: utterance_onerror_def reject_def settle_def promise_of_def Let_def nth_list_update)


text \<open>
  C2. The promise of a call is resolved by that call's \<open>onload\<close> event and by nothing
  else: if it is resolved after a run of events and was not before, the run contains
  \<open>Onload c\<close>. The utterance's \<open>onend\<close> and \<open>onerror\<close> leave every promise as it was or
  reject one that was pending; and a promise that is settled keeps its settlement through
  every later run of events, so nothing settles it twice.
\<close>

theorem resolved_only_by_onload:
  "(promise_of (run evs s) c = Some (Resolved v) \<and> promise_of s c \<noteq> Some (Resolved v)
      \<longrightarrow> Onload c \<in> set evs) \<and>
   (promise_of (step (UtteranceEnd c') s) c = promise_of s c \<or>
    (promise_of s c = Some Pending \<and>
     promise_of (step (UtteranceEnd c') s) c = Some (Rejected Cancelled))) \<and>
   (promise_of (step (UtteranceError c' code) s) c = promise_of s c \<or>
    (promise_of s c = Some Pending \<and>
     promise_of (step (UtteranceError c' code) s) c = Some (Rejected (SynthesisFailed code)))) \<and>
   (promise_of s c = Some st \<and> st \<noteq> Pending \<longrightarrow> promise_of (run evs s) c = Some st)"
  using run_resolved_by_onload [of evs s c v] utterance_end_settles [of c' s c]
    utterance_error_settles [of c' code s c] run_settled_stays [of s c st evs]
  by blast

theorem resolved_only_by_onload_witness:
  "promise_of (run [UtteranceEnd 0, Onload 0]
      (run [GenerateSpeech ''hi''] (new_WebSpeechSynthesis browser_env))) 0
     = Some (Resolved \<lparr>res_player = 0, res_analyser = 0, duration = 2/5\<rparr>) \<and>
   promise_of (run [GenerateSpeech ''hi''] (new_WebSpeechSynthesis browser_env)) 0
     \<noteq> Some (Resolved \<lparr>res_player = 0, res_analyser = 0, duration = 2/5\<rparr>) \<and>
   Onload 0 \<in> set [UtteranceEnd 0, Onload 0] \<and>
   promise_of (run [GenerateSpeech ''hi'', Onload 0] (new_WebSpeechSynthesis browser_env)) 0
     = Some (Resolved \<lparr>res_player = 0, res_analyser = 0, duration = 2/5\<rparr>) \<and>
   Resolved \<lparr>res_player = 0, res_analyser = 0, duration = 2/5\<rparr> \<noteq> Pending \<and>
   promise_of (run [Stop, UtteranceEnd 0, UtteranceError 0 ''interrupted'']
      (run [GenerateSpeech ''hi'', Onload 0] (new_WebSpeechSynthesis browser_env))) 0
     = Some (Resolved \<lparr>res_player = 0, res_analyser = 0, duration = 2/5\<rparr>)"
proof -
  have a: "promise_of (run [UtteranceEnd 0, Onload 0]
      (run [GenerateSpeech ''hi''] (new_WebSpeechSynthesis browser_env))) 0
     = Some (Resolved \<lparr>res_player = 0, res_analyser = 0, duration = 2/5\<rparr>)"
    by (simp add: browser_env_def eval_defs)
  have b: "promise_of (run [GenerateSpeech ''hi''] (new_WebSpeechSynthesis browser_env)) 0
     \<noteq> Some (Resolved \<lparr>res_player = 0, res_analyser = 0, duration = 2/5\<rparr>)"
    by (simp add: browser_env_def eval_defs)
  have c: "promise_of (run [GenerateSpeech ''hi'', Onload 0] (new_WebSpeechSynthesis browser_env)) 0
     = Some (Resolved \<lparr>res_player = 0, res_analyser = 0, duration = 2/5\<rparr>)"
    by (simp add: browser_env_def eval_defs)
  have d: "Resolved \<lparr>res_player = 0, res_analyser = 0, duration = 2/5\<rparr> \<noteq> Pending"
    by simp
  from a b
    resolved_only_by_onload [of "[UtteranceEnd 0, Onload 0]"
      "run [GenerateSpeech ''hi''] (new_WebSpeechSynthesis browser_env)" 0
      "\<lparr>res_player = 0, res_analyser = 0, duration = 2/5\<rparr>"]
  have e: "Onload 0 \<in> set [UtteranceEnd 0, Onload 0]" by blast
  from c d
    resolved_only_by_onload [of "[Stop, UtteranceEnd 0, UtteranceError 0 ''interrupted'']"
      "run [GenerateSpeech ''hi'', Onload 0] (new_WebSpeechSynthesis browser_env)" 0
      _ _ _ "Resolved \<lparr>res_player = 0, res_analyser = 0, duration = 2/5\<rparr>"]
  have f: "promise_of (run [Stop, UtteranceEnd 0, UtteranceError 0 ''interrupted'']
      (run [GenerateSpeech ''hi'', Onload 0] (new_WebSpeechSynthesis browser_env))) 0
     = Some (Resolved \<lparr>res_player = 0, res_analyser = 0, duration = 2/5\<rparr>)" by blast
  from a b c d e f show ?thesis by blast
qed


section \<open>Cancellation\<close>

lemma new_not_wired: "is_wired (new_WebSpeechSynthesis env) c = False"
  by (simp add: new_WebSpeechSynthesis_def initializeBrowserComponents_def is_wired_def Let_def)

lemma step_wired_components:
  "(\<forall>c. is_wired s c \<longrightarrow>
        synth s \<noteq> None \<and> audioContext s \<noteq> None \<and> mediaStreamDestination s \<noteq> None) \<Longrightarrow>
   is_wired (step e s) c \<Longrightarrow>
   synth (step e s) \<noteq> None \<and> audioContext (step e s) \<noteq> None \<and>
   mediaStreamDestination (step e s) \<noteq> None"
  by (cases e)
     (auto simp: op_defs Let_def settle_def is_wired_def nth_append nth_list_update
           split: option.splits prod.splits if_splits)

lemma run_wired_components:
  "(\<forall>c. is_wired s c \<longrightarrow>
        synth s \<noteq> None \<and> audioContext s \<noteq> None \<and> mediaStreamDestination s \<noteq> None) \<Longrightarrow>
   is_wired (run evs s) c \<Longrightarrow>
   synth (run evs s) \<noteq> None \<and> audioContext (run evs s) \<noteq> None \<and>
   mediaStreamDestination (run evs s) \<noteq> None"
proof (induction evs arbitrary: s)
  case Nil
  then show ?case by auto
next
  case (Cons e evs)
  have "\<forall>c. is_wired (step e s) c \<longrightarrow>
          synth (step e s) \<noteq> None \<and> audioContext (step e s) \<noteq> None \<and>
          mediaStreamDestination (step e s) \<noteq> None"
    using step_wired_components [OF Cons.prems(1)] by blast
  from Cons.IH [OF this] Cons.prems(2) show ?case by simp
qed

lemma reachable_wired_components:
  "is_wired (run evs (new_WebSpeechSynthesis env)) c \<Longrightarrow>
   synth (run evs (new_WebSpeechSynthesis env)) \<noteq> None \<and>
   audioContext (run evs (new_WebSpeechSynthesis env)) \<noteq> None \<and>
   mediaStreamDestination (run evs (new_WebSpeechSynthesis env)) \<noteq> None"
  by (rule run_wired_components) (simp_all add: new_not_wired)

lemma stop_while_generating:
  "isGenerating s \<Longrightarrow> synth s = Some sy \<Longrightarrow>
   fst (stop s) = None \<and> isGenerating (snd (stop s)) \<and> isCancelled (snd (stop s)) \<and>
   calls (snd (stop s)) = calls s \<and>
   synth (snd (stop s)) = Some (sy\<lparr>cancels := Suc (cancels sy)\<rparr>)"
  by (simp add: stop_def stop_player_def split: option.splits)

lemma stop_keeps_promises: "promise_of (snd (stop s)) c = promise_of s c"
  by (simp add: stop_def stop_player_def promise_of_def split: option.splits)

lemma undisturbed_step:
  "undisturbed c e s \<Longrightarrow>
   isCancelled s \<and> is_wired s c \<and>
     (promise_of s c = Some Pending \<or> promise_of s c = Some (Rejected Cancelled)) \<Longrightarrow>
   isCancelled (step e s) \<and> is_wired (step e s) c \<and>
     (promise_of (step e s) c = Some Pending \<or>
      promise_of (step e s) c = Some (Rejected Cancelled))"
  by (cases e)
     (auto simp: op_defs Let_def settle_def is_wired_def promise_of_def nth_list_update
           split: option.splits prod.splits if_splits)

lemma undisturbed_run:
  "run_all (undisturbed c) evs s \<Longrightarrow>
   isCancelled s \<and> is_wired s c \<and>
     (promise_of s c = Some Pending \<or> promise_of s c = Some (Rejected Cancelled)) \<Longrightarrow>
   isCancelled (run evs s) \<and> is_wired (run evs s) c \<and>
     (promise_of (run evs s) c = Some Pending \<or>
      promise_of (run evs s) c = Some (Rejected Cancelled))"
proof (induction evs arbitrary: s)
  case Nil
  then show ?case by simp
next
  case (Cons e evs)
  from Cons.prems(1) have u: "undisturbed c e s" and us: "run_all (undisturbed c) evs (step e s)"
    by simp_all
  from Cons.IH [OF us undisturbed_step [OF u Cons.prems(2)]] show ?case by simp
qed

lemma end_while_cancelled:
  "isCancelled s \<and> is_wired s c \<and>
     (promise_of s c = Some Pending \<or> promise_of s c = Some (Rejected Cancelled)) \<Longrightarrow>
   promise_of (step (UtteranceEnd c) s) c = Some (Rejected Cancelled)"
  by (auto simp: utterance_onend_def reject_def settle_def promise_of_def Let_def
           split: if_splits)

lemma stop_then_end_undisturbed:
  assumes reach: "s = run evs0 (new_WebSpeechSynthesis env)"
    and gen: "isGenerating s"
    and wired: "is_wired s c"
    and pend: "promise_of s c = Some Pending"
    and quiet: "run_all (undisturbed c) evs (snd (stop s))"
  shows "fst (stop s) = None \<and> isCancelled (snd (stop s)) \<and>
         synth s \<noteq> None \<and>
         map_option cancels (synth (snd (stop s))) = map_option (\<lambda>sy. Suc (cancels sy)) (synth s) \<and>
         promise_of (step (UtteranceEnd c) (run evs (snd (stop s)))) c = Some (Rejected Cancelled)"
proof -
  from wired reach reachable_wired_components [of evs0 env c] have "synth s \<noteq> None" by simp
  then obtain sy where sy: "synth s = Some sy" by auto
  note st = stop_while_generating [OF gen sy]
  from st wired pend
  have k: "isCancelled (snd (stop s)) \<and> is_wired (snd (stop s)) c \<and>
     (promise_of (snd (stop s)) c = Some Pending \<or>
      promise_of (snd (stop s)) c = Some (Rejected Cancelled))"
    by (simp add: is_wired_def promise_of_def)
  from end_while_cancelled [OF undisturbed_run [OF quiet k]] st sy show ?thesis by simp
qed

text \<open>
  C3 as stated fails. \<open>isCancelled\<close> belongs to the instance, not to the request, and the
  next accepted request clears it. Call 1 is generating and pending when \<open>stop()\<close> sets
  the flag; a late \<open>onend\<close> of call 0 then clears \<open>isGenerating\<close>, a third request is
  accepted and clears \<open>isCancelled\<close>, and the \<open>onend\<close> of call 1 finds no flag: its promise
  stays pending.
\<close>

theorem stop_then_end_pending_counterexample:
  "isGenerating (run [GenerateSpeech ''hi'', UtteranceEnd 0, GenerateSpeech ''yo'']
      (new_WebSpeechSynthesis browser_env)) \<and>
   is_wired (run [GenerateSpeech ''hi'', UtteranceEnd 0, GenerateSpeech ''yo'']
      (new_WebSpeechSynthesis browser_env)) 1 \<and>
   promise_of (run [GenerateSpeech ''hi'', UtteranceEnd 0, GenerateSpeech ''yo'']
      (new_WebSpeechSynthesis browser_env)) 1 = Some Pending \<and>
   isCancelled (snd (stop (run [GenerateSpeech ''hi'', UtteranceEnd 0, GenerateSpeech ''yo'']
      (new_WebSpeechSynthesis browser_env)))) \<and>
   promise_of (step (UtteranceEnd 1) (run [UtteranceEnd 0, GenerateSpeech ''zz'']
      (snd (stop (run [GenerateSpeech ''hi'', UtteranceEnd 0, GenerateSpeech ''yo'']
        (new_WebSpeechSynthesis browser_env)))))) 1 = Some Pending"
  by (simp add: browser_env_def eval_defs)

text \<open>
  C3, amended. In a state the instance can reach where a call is generating and its promise
  is pending, \<open>stop()\<close> returns normally, sets \<open>isCancelled\<close> and commands the engine's
  \<open>cancel\<close>. When the call's \<open>onend\<close> fires afterwards, its promise is rejected with
  \<open>Cancelled\<close>, provided that in between no new request was accepted and neither the
  \<open>onload\<close> nor the \<open>onerror\<close> of that call fired; every other event may happen in
  between. If a promise is already resolved, \<open>stop()\<close> and everything after it leave the
  resolved value as it is.
\<close>

theorem stop_then_end_rejects_while_cancelled:
  "(s = run evs0 (new_WebSpeechSynthesis env) \<and> isGenerating s \<and> is_wired s c \<and>
    promise_of s c = Some Pending \<and> run_all (undisturbed c) evs (snd (stop s))
    \<longrightarrow> fst (stop s) = None \<and> isCancelled (snd (stop s)) \<and> synth s \<noteq> None \<and>
        map_option cancels (synth (snd (stop s))) =
          map_option (\<lambda>sy. Suc (cancels sy)) (synth s) \<and>
        promise_of (step (UtteranceEnd c) (run evs (snd (stop s)))) c =
          Some (Rejected Cancelled)) \<and>
   (promise_of s' c' = Some (Resolved v)
    \<longrightarrow> promise_of (snd (stop s')) c' = Some (Resolved v) \<and>
        promise_of (run evs' (snd (stop s'))) c' = Some (Resolved v))"
proof -
  have a: "promise_of (run evs' (snd (stop s'))) c' = Some (Resolved v)"
    if "promise_of s' c' = Some (Resolved v)"
    using that run_settled_stays [of "snd (stop s')" c' "Resolved v" evs']
    by (simp add: stop_keeps_promises)
  have b: "promise_of (snd (stop s')) c' = promise_of s' c'"
    by (rule stop_keeps_promises)
  from a b stop_then_end_undisturbed [of s evs0 env c evs] show ?thesis by metis
qed

theorem stop_then_end_rejects_while_cancelled_witness:
  "isGenerating (run [GenerateSpeech ''hi'', UtteranceEnd 0, GenerateSpeech ''yo'']
      (new_WebSpeechSynthesis browser_env)) \<and>
   is_wired (run [GenerateSpeech ''hi'', UtteranceEnd 0, GenerateSpeech ''yo'']
      (new_WebSpeechSynthesis browser_env)) 1 \<and>
   promise_of (run [GenerateSpeech ''hi'', UtteranceEnd 0, GenerateSpeech ''yo'']
      (new_WebSpeechSynthesis browser_env)) 1 = Some Pending \<and>
   run_all (undisturbed 1) [Onload 0, GenerateSpeech ''again'', ResumeDone, UtteranceEnd 0]
     (snd (stop (run [GenerateSpeech ''hi'', UtteranceEnd 0, GenerateSpeech ''yo'']
        (new_WebSpeechSynthesis browser_env)))) \<and>
   promise_of (step (UtteranceEnd 1)
     (run [Onload 0, GenerateSpeech ''again'', ResumeDone, UtteranceEnd 0]
       (snd (stop (run [GenerateSpeech ''hi'', UtteranceEnd 0, GenerateSpeech ''yo'']
          (new_WebSpeechSynthesis browser_env)))))) 1 = Some (Rejected Cancelled) \<and>
   promise_of (run [GenerateSpeech ''hi'', Onload 0] (new_WebSpeechSynthesis browser_env)) 0 =
     Some (Resolved \<lparr>res_player = 0, res_analyser = 0, duration = 2/5\<rparr>) \<and>
   promise_of (run [UtteranceEnd 0]
       (snd (stop (run [GenerateSpeech ''hi'', Onload 0] (new_WebSpeechSynthesis browser_env))))) 0 =
     Some (Resolved \<lparr>res_player = 0, res_analyser = 0, duration = 2/5\<rparr>)"
proof -
  have a: "isGenerating (run [GenerateSpeech ''hi'', UtteranceEnd 0, GenerateSpeech ''yo'']
      (new_WebSpeechSynthesis browser_env))"
    by (simp add: browser_env_def eval_defs)
  have b: "is_wired (run [GenerateSpeech ''hi'', UtteranceEnd 0, GenerateSpeech ''yo'']
      (new_WebSpeechSynthesis browser_env)) 1"
    by (simp add: browser_env_def eval_defs)
  have c: "promise_of (run [GenerateSpeech ''hi'', UtteranceEnd 0, GenerateSpeech ''yo'']
      (new_WebSpeechSynthesis browser_env)) 1 = Some Pending"
    by (simp add: browser_env_def eval_defs)
  have d: "run_all (undisturbed 1) [Onload 0, GenerateSpeech ''again'', ResumeDone, UtteranceEnd 0]
     (snd (stop (run [GenerateSpeech ''hi'', UtteranceEnd 0, GenerateSpeech ''yo'']
        (new_WebSpeechSynthesis browser_env))))"
    by (simp add: browser_env_def eval_defs)
  have e: "promise_of (run [GenerateSpeech ''hi'', Onload 0] (new_WebSpeechSynthesis browser_env)) 0 =
     Some (Resolved \<lparr>res_player = 0, res_analyser = 0, duration = 2/5\<rparr>)"
    by (simp add: browser_env_def eval_defs)
  from a b c d e
    stop_then_end_rejects_while_cancelled
      [of "run [GenerateSpeech ''hi'', UtteranceEnd 0, GenerateSpeech ''yo'']
             (new_WebSpeechSynthesis browser_env)"
          "[GenerateSpeech ''hi'', UtteranceEnd 0, GenerateSpeech ''yo'']" browser_env 1
          "[Onload 0, GenerateSpeech ''again'', ResumeDone, UtteranceEnd 0]"
          "run [GenerateSpeech ''hi'', Onload 0] (new_WebSpeechSynthesis browser_env)" 0
          "\<lparr>res_player = 0, res_analyser = 0, duration = 2/5\<rparr>" "[UtteranceEnd 0]"]
  show ?thesis by blast
qed



section \<open>Requests, their promises and the flags\<close>

lemma run_append: "run (xs @ ys) s = run ys (run xs s)"
  by (induction xs arbitrary: s) simp_all

lemma step_window_analyser:
  "(has_window s \<longrightarrow> analyser s \<noteq> None) \<Longrightarrow> (has_window (step e s) \<longrightarrow> analyser (step e s) \<noteq> None)"
  by (cases e) (auto simp: op_defs settle_def Let_def split: option.splits prod.splits if_splits)

lemma run_window_analyser:
  "(has_window s \<longrightarrow> analyser s \<noteq> None) \<Longrightarrow> (has_window (run evs s) \<longrightarrow> analyser (run evs s) \<noteq> None)"
proof (induction evs arbitrary: s)
  case Nil
  then show ?case by simp
next
  case (Cons e evs)
  from Cons.IH [OF step_window_analyser [OF Cons.prems]] show ?case by simp
qed

lemma reachable_window_analyser:
  "has_window (run evs (new_WebSpeechSynthesis env)) \<Longrightarrow>
   analyser (run evs (new_WebSpeechSynthesis env)) \<noteq> None"
  using run_window_analyser [of "new_WebSpeechSynthesis env" evs]
  by (simp add: new_WebSpeechSynthesis_def initializeBrowserComponents_def Let_def)

text \<open>What an accepted request leaves behind.\<close>

lemma accepted_request:
  "generateSpeech t s = (Inr c, s1) \<Longrightarrow>
   has_window s1 \<and> isGenerating s1 \<and> \<not> isCancelled s1 \<and>
   (\<exists>st. promise_of s1 c = Some st) \<and>
   (promise_of s1 c = Some Pending \<longrightarrow>
      is_wired s1 c \<and> player s1 \<noteq> None \<and> c_text (calls s1 ! c) = t)"
  by (auto simp: generateSpeech_def executor_def reject_def settle_def promise_of_def
                 is_wired_def Let_def nth_append nth_list_update
           split: if_splits)

lemma accepted_is_step: "generateSpeech t s = (Inr c, s1) \<Longrightarrow> s1 = step (GenerateSpeech t) s"
  by simp

lemma run_has_window: "has_window (run evs s) = has_window s"
  by (induction evs arbitrary: s) (simp_all add: step_has_window)

lemma step_keeps_wiring:
  "is_wired s c \<and> player s \<noteq> None \<and> c_text (calls s ! c) = t \<Longrightarrow>
   is_wired (step e s) c \<and> player (step e s) \<noteq> None \<and> c_text (calls (step e s) ! c) = t"
  by (cases e)
     (auto simp: op_defs Let_def settle_def is_wired_def nth_append nth_list_update
           split: option.splits prod.splits if_splits)

lemma run_keeps_wiring:
  "is_wired s c \<and> player s \<noteq> None \<and> c_text (calls s ! c) = t \<Longrightarrow>
   is_wired (run evs s) c \<and> player (run evs s) \<noteq> None \<and> c_text (calls (run evs s) ! c) = t"
proof (induction evs arbitrary: s)
  case Nil
  then show ?case by simp
next
  case (Cons e evs)
  from Cons.IH [OF step_keeps_wiring [OF Cons.prems]] show ?case by simp
qed

text \<open>The player's \<open>onload\<close> on a pending call whose objects exist always resolves.\<close>

lemma onload_resolves:
  "is_wired s c \<Longrightarrow> promise_of s c = Some Pending \<Longrightarrow> player s = Some p \<Longrightarrow> analyser s = Some a \<Longrightarrow>
   promise_of (step (Onload c) s) c =
     Some (Resolved \<lparr>res_player = pl_id p, res_analyser = an_id a,
                     duration = real (length (c_text (calls s ! c))) / 5\<rparr>) \<and>
   isGenerating (step (Onload c) s) = isGenerating s \<and>
   isCancelled (step (Onload c) s) = isCancelled s"
  by (auto simp: player_onload_def resolve_def settle_def promise_of_def is_wired_def
                 estimatedDuration_def
           split: if_splits)

text \<open>
  A request accepted in a reachable state, whose promise is still pending after a run of
  events, is wired, and the player and the analyser exist.
\<close>

lemma pending_request_ready:
  assumes g: "generateSpeech t (run evs0 (new_WebSpeechSynthesis env)) = (Inr c, s1)"
    and p: "promise_of (run evs s1) c = Some Pending"
  shows "is_wired (run evs s1) c \<and> player (run evs s1) \<noteq> None \<and>
         analyser (run evs s1) \<noteq> None \<and> c_text (calls (run evs s1) ! c) = t"
proof -
  note a = accepted_request [OF g]
  from a obtain st where st: "promise_of s1 c = Some st" by blast
  have "st = Pending"
  proof (rule ccontr)
    assume "st \<noteq> Pending"
    from run_settled_stays [OF st this, of evs] p show False using \<open>st \<noteq> Pending\<close> by simp
  qed
  with st a have w: "is_wired s1 c \<and> player s1 \<noteq> None \<and> c_text (calls s1 ! c) = t" by blast
  from accepted_is_step [OF g]
  have r: "run evs s1 = run (evs0 @ GenerateSpeech t # evs) (new_WebSpeechSynthesis env)"
    by (simp add: run_append)
  from a have "has_window (run evs s1)" by (simp add: run_has_window)
  with r have "analyser (run evs s1) \<noteq> None"
    using reachable_window_analyser [of "evs0 @ GenerateSpeech t # evs" env] by simp
  with run_keeps_wiring [OF w, of evs] show ?thesis by simp
qed

lemma step_not_cancelled:
  "\<not> cancels_request e s \<Longrightarrow> \<not> isCancelled s \<Longrightarrow> \<not> isCancelled (step e s)"
  by (cases e) (auto simp: op_defs settle_def Let_def split: option.splits prod.splits if_splits)

lemma run_not_cancelled:
  "run_all (\<lambda>e s. \<not> cancels_request e s) evs s \<Longrightarrow> \<not> isCancelled s \<Longrightarrow>
   \<not> isCancelled (run evs s)"
proof (induction evs arbitrary: s)
  case Nil
  then show ?case by simp
next
  case (Cons e evs)
  from Cons.prems(1) have h: "\<not> cancels_request e s"
    and t: "run_all (\<lambda>e s. \<not> cancels_request e s) evs (step e s)" by simp_all
  from Cons.IH [OF t step_not_cancelled [OF h Cons.prems(2)]] show ?case by simp
qed

lemma step_cancels: "cancels_request e s \<Longrightarrow> isCancelled (step e s)"
  by (cases e) (auto simp: op_defs settle_def Let_def split: option.splits prod.splits if_splits)

lemma step_stays_cancelled:
  "\<not> accepts e s \<Longrightarrow> isCancelled s \<Longrightarrow> isCancelled (step e s)"
  by (cases e) (auto simp: op_defs settle_def Let_def split: option.splits prod.splits if_splits)

lemma run_stays_cancelled:
  "run_all (\<lambda>e s. \<not> accepts e s) evs s \<Longrightarrow> isCancelled s \<Longrightarrow> isCancelled (run evs s)"
proof (induction evs arbitrary: s)
  case Nil
  then show ?case by simp
next
  case (Cons e evs)
  from Cons.prems(1) have h: "\<not> accepts e s"
    and t: "run_all (\<lambda>e s. \<not> accepts e s) evs (step e s)" by simp_all
  from Cons.IH [OF t step_stays_cancelled [OF h Cons.prems(2)]] show ?case by simp
qed

lemma step_still_generating:
  "\<not> utterance_done e s \<Longrightarrow> isGenerating s \<Longrightarrow> isGenerating (step e s)"
  by (cases e) (auto simp: op_defs settle_def Let_def split: option.splits prod.splits if_splits)

lemma run_still_generating:
  "run_all (\<lambda>e s. \<not> utterance_done e s) evs s \<Longrightarrow> isGenerating s \<Longrightarrow>
   isGenerating (run evs s)"
proof (induction evs arbitrary: s)
  case Nil
  then show ?case by simp
next
  case (Cons e evs)
  from Cons.prems(1) have h: "\<not> utterance_done e s"
    and t: "run_all (\<lambda>e s. \<not> utterance_done e s) evs (step e s)" by simp_all
  from Cons.IH [OF t step_still_generating [OF h Cons.prems(2)]] show ?case by simp
qed

lemma step_done: "utterance_done e s \<Longrightarrow> \<not> isGenerating (step e s)"
  by (cases e) (auto simp: op_defs settle_def Let_def split: option.splits prod.splits if_splits)

lemma step_stays_idle:
  "\<not> accepts e s \<Longrightarrow> \<not> isGenerating s \<Longrightarrow> \<not> isGenerating (step e s)"
  by (cases e) (auto simp: op_defs settle_def Let_def split: option.splits prod.splits if_splits)

lemma run_stays_idle:
  "run_all (\<lambda>e s. \<not> accepts e s) evs s \<Longrightarrow> \<not> isGenerating s \<Longrightarrow> \<not> isGenerating (run evs s)"
proof (induction evs arbitrary: s)
  case Nil
  then show ?case by simp
next
  case (Cons e evs)
  from Cons.prems(1) have h: "\<not> accepts e s"
    and t: "run_all (\<lambda>e s. \<not> accepts e s) evs (step e s)" by simp_all
  from Cons.IH [OF t step_stays_idle [OF h Cons.prems(2)]] show ?case by simp
qed

lemma run_split: "run (xs @ e # ys) s = run ys (step e (run xs s))"
  by (simp add: run_append)

section \<open>The state at resolution\<close>

text \<open>
  C4 as stated fails: \<open>onload\<close> resolves the promise without touching the flags. When it
  fires before the utterance has ended the promise is resolved while \<open>isGenerating\<close> is
  true, and after a \<open>stop()\<close> while \<open>isCancelled\<close> is true.
\<close>

theorem resolves_while_generating_counterexample:
  "promise_of (run [GenerateSpeech ''hi'', Onload 0] (new_WebSpeechSynthesis browser_env)) 0 =
     Some (Resolved \<lparr>res_player = 0, res_analyser = 0, duration = 2/5\<rparr>) \<and>
   isGenerating (run [GenerateSpeech ''hi'', Onload 0] (new_WebSpeechSynthesis browser_env)) \<and>
   promise_of (run [GenerateSpeech ''hi'', Stop, Onload 0] (new_WebSpeechSynthesis browser_env)) 0 =
     Some (Resolved \<lparr>res_player = 0, res_analyser = 0, duration = 2/5\<rparr>) \<and>
   isCancelled (run [GenerateSpeech ''hi'', Stop, Onload 0] (new_WebSpeechSynthesis browser_env))"
  by (simp add: browser_env_def eval_defs)


text \<open>
  C4, amended. Take a request accepted in a state the instance can reach, and any run of
  events after which its promise is still pending. Then the player and the analyser
  exist, and \<open>onload\<close> resolves the promise with their handles and the estimated
  duration, changing neither flag. At that moment \<open>isCancelled\<close> is false if no \<open>stop()\<close>
  or \<open>dispose()\<close> found the instance generating since the request was accepted, and true
  if one did and no request was accepted after it; \<open>isGenerating\<close> is true if no utterance
  \<open>onend\<close> or \<open>onerror\<close> has run since the request was accepted, and false if one has and
  no request was accepted after it.
\<close>

theorem resolution_postcondition:
  assumes g: "generateSpeech t (run evs0 (new_WebSpeechSynthesis env)) = (Inr c, s1)"
    and p: "promise_of (run evs s1) c = Some Pending"
  shows "player (run evs s1) \<noteq> None \<and> analyser (run evs s1) \<noteq> None \<and>
    promise_of (step (Onload c) (run evs s1)) c =
      Some (Resolved \<lparr>res_player = pl_id (the (player (run evs s1))),
                      res_analyser = an_id (the (analyser (run evs s1))),
                      duration = real (length t) / 5\<rparr>) \<and>
    isGenerating (step (Onload c) (run evs s1)) = isGenerating (run evs s1) \<and>
    isCancelled (step (Onload c) (run evs s1)) = isCancelled (run evs s1) \<and>
    (run_all (\<lambda>e s. \<not> cancels_request e s) evs s1
       \<longrightarrow> \<not> isCancelled (step (Onload c) (run evs s1))) \<and>
    (evs = pre @ ev # post \<and> cancels_request ev (run pre s1) \<and>
     run_all (\<lambda>e s. \<not> accepts e s) post (step ev (run pre s1))
       \<longrightarrow> isCancelled (step (Onload c) (run evs s1))) \<and>
    (run_all (\<lambda>e s. \<not> utterance_done e s) evs s1
       \<longrightarrow> isGenerating (step (Onload c) (run evs s1))) \<and>
    (evs = pre' @ ev' # post' \<and> utterance_done ev' (run pre' s1) \<and>
     run_all (\<lambda>e s. \<not> accepts e s) post' (step ev' (run pre' s1))
       \<longrightarrow> \<not> isGenerating (step (Onload c) (run evs s1)))"
proof -
  note a = accepted_request [OF g]
  note r = pending_request_ready [OF g p]
  from r obtain pl an where pl: "player (run evs s1) = Some pl"
    and an: "analyser (run evs s1) = Some an" by auto
  from r have w: "is_wired (run evs s1) c" and tx: "c_text (calls (run evs s1) ! c) = t"
    by simp_all
  note o = onload_resolves [OF w p pl an]
  have c1: "\<not> isCancelled (run evs s1)"
    if "run_all (\<lambda>e s. \<not> cancels_request e s) evs s1"
    using run_not_cancelled [OF that] a by simp
  have c2: "isCancelled (run evs s1)"
    if "evs = pre @ ev # post" "cancels_request ev (run pre s1)"
      "run_all (\<lambda>e s. \<not> accepts e s) post (step ev (run pre s1))"
    using run_stays_cancelled [OF that(3) step_cancels [OF that(2)]] that(1)
    by (simp add: run_split)
  have g1: "isGenerating (run evs s1)"
    if "run_all (\<lambda>e s. \<not> utterance_done e s) evs s1"
    using run_still_generating [OF that] a by simp
  have g2: "\<not> isGenerating (run evs s1)"
    if "evs = pre' @ ev' # post'" "utterance_done ev' (run pre' s1)"
      "run_all (\<lambda>e s. \<not> accepts e s) post' (step ev' (run pre' s1))"
    using run_stays_idle [OF that(3) step_done [OF that(2)]] that(1)
    by (simp add: run_split)
  from o pl an tx c1 c2 g1 g2 show ?thesis by auto
qed

theorem resolution_postcondition_witness:
  "generateSpeech ''hi'' (run [] (new_WebSpeechSynthesis browser_env)) =
     (Inr 0, snd (generateSpeech ''hi'' (run [] (new_WebSpeechSynthesis browser_env)))) \<and>
   promise_of (run [UtteranceEnd 0, Stop]
     (snd (generateSpeech ''hi'' (run [] (new_WebSpeechSynthesis browser_env))))) 0 = Some Pending \<and>
   run_all (\<lambda>e s. \<not> cancels_request e s) [UtteranceEnd 0, Stop]
     (snd (generateSpeech ''hi'' (run [] (new_WebSpeechSynthesis browser_env)))) \<and>
   utterance_done (UtteranceEnd 0)
     (run [] (snd (generateSpeech ''hi'' (run [] (new_WebSpeechSynthesis browser_env))))) \<and>
   run_all (\<lambda>e s. \<not> accepts e s) [Stop]
     (step (UtteranceEnd 0)
       (run [] (snd (generateSpeech ''hi'' (run [] (new_WebSpeechSynthesis browser_env)))))) \<and>
   promise_of (step (Onload 0) (run [UtteranceEnd 0, Stop]
     (snd (generateSpeech ''hi'' (run [] (new_WebSpeechSynthesis browser_env)))))) 0 =
     Some (Resolved \<lparr>res_player = 0, res_analyser = 0, duration = 2/5\<rparr>) \<and>
   \<not> isCancelled (step (Onload 0) (run [UtteranceEnd 0, Stop]
     (snd (generateSpeech ''hi'' (run [] (new_WebSpeechSynthesis browser_env)))))) \<and>
   \<not> isGenerating (step (Onload 0) (run [UtteranceEnd 0, Stop]
     (snd (generateSpeech ''hi'' (run [] (new_WebSpeechSynthesis browser_env)))))) \<and>
   promise_of (run [Stop]
     (snd (generateSpeech ''hi'' (run [] (new_WebSpeechSynthesis browser_env))))) 0 = Some Pending \<and>
   cancels_request Stop
     (run [] (snd (generateSpeech ''hi'' (run [] (new_WebSpeechSynthesis browser_env))))) \<and>
   run_all (\<lambda>e s. \<not> accepts e s) []
     (step Stop
       (run [] (snd (generateSpeech ''hi'' (run [] (new_WebSpeechSynthesis browser_env)))))) \<and>
   run_all (\<lambda>e s. \<not> utterance_done e s) [Stop]
     (snd (generateSpeech ''hi'' (run [] (new_WebSpeechSynthesis browser_env)))) \<and>
   isCancelled (step (Onload 0) (run [Stop]
     (snd (generateSpeech ''hi'' (run [] (new_WebSpeechSynthesis browser_env)))))) \<and>
   isGenerating (step (Onload 0) (run [Stop]
     (snd (generateSpeech ''hi'' (run [] (new_WebSpeechSynthesis browser_env))))))"
proof -
  have a: "generateSpeech ''hi'' (run [] (new_WebSpeechSynthesis browser_env)) =
     (Inr 0, snd (generateSpeech ''hi'' (run [] (new_WebSpeechSynthesis browser_env))))"
    by (simp add: browser_env_def eval_defs)
  have p1: "promise_of (run [UtteranceEnd 0, Stop]
     (snd (generateSpeech ''hi'' (run [] (new_WebSpeechSynthesis browser_env))))) 0 = Some Pending"
    by (simp add: browser_env_def eval_defs)
  have h1: "run_all (\<lambda>e s. \<not> cancels_request e s) [UtteranceEnd 0, Stop]
     (snd (generateSpeech ''hi'' (run [] (new_WebSpeechSynthesis browser_env))))"
    by (simp add: browser_env_def eval_defs)
  have h2: "utterance_done (UtteranceEnd 0)
     (run [] (snd (generateSpeech ''hi'' (run [] (new_WebSpeechSynthesis browser_env)))))"
    by (simp add: browser_env_def eval_defs)
  have h3: "run_all (\<lambda>e s. \<not> accepts e s) [Stop]
     (step (UtteranceEnd 0)
       (run [] (snd (generateSpeech ''hi'' (run [] (new_WebSpeechSynthesis browser_env))))))"
    by simp
  have p2: "promise_of (run [Stop]
     (snd (generateSpeech ''hi'' (run [] (new_WebSpeechSynthesis browser_env))))) 0 = Some Pending"
    by (simp add: browser_env_def eval_defs)
  have k1: "cancels_request Stop
     (run [] (snd (generateSpeech ''hi'' (run [] (new_WebSpeechSynthesis browser_env)))))"
    by (simp add: browser_env_def eval_defs)
  have k2: "run_all (\<lambda>e s. \<not> accepts e s) []
     (step Stop
       (run [] (snd (generateSpeech ''hi'' (run [] (new_WebSpeechSynthesis browser_env))))))"
    by simp
  have k3: "run_all (\<lambda>e s. \<not> utterance_done e s) [Stop]
     (snd (generateSpeech ''hi'' (run [] (new_WebSpeechSynthesis browser_env))))"
    by simp
  have v: "pl_id (the (player (run [UtteranceEnd 0, Stop]
       (snd (generateSpeech ''hi'' (run [] (new_WebSpeechSynthesis browser_env))))))) = 0"
    "an_id (the (analyser (run [UtteranceEnd 0, Stop]
       (snd (generateSpeech ''hi'' (run [] (new_WebSpeechSynthesis browser_env))))))) = 0"
    "real (length ''hi'') / 5 = 2 / 5"
    by (simp_all add: browser_env_def eval_defs)
  note A = resolution_postcondition [OF a p1, where pre' = "[]" and ev' = "UtteranceEnd 0"
      and post' = "[Stop]"]
  note B = resolution_postcondition [OF a p2, where pre = "[]" and ev = Stop and post = "[]"]
  have sa: "[UtteranceEnd 0, Stop] = [] @ UtteranceEnd 0 # [Stop]"
    and sb: "[Stop] = [] @ Stop # []" by simp_all
  from A
  have "promise_of (step (Onload 0) (run [UtteranceEnd 0, Stop]
       (snd (generateSpeech ''hi'' (run [] (new_WebSpeechSynthesis browser_env)))))) 0 =
       Some (Resolved \<lparr>res_player = pl_id (the (player (run [UtteranceEnd 0, Stop]
           (snd (generateSpeech ''hi'' (run [] (new_WebSpeechSynthesis browser_env))))))),
         res_analyser = an_id (the (analyser (run [UtteranceEnd 0, Stop]
           (snd (generateSpeech ''hi'' (run [] (new_WebSpeechSynthesis browser_env))))))),
         duration = real (length ''hi'') / 5\<rparr>)"
    by blast
  then have ra: "promise_of (step (Onload 0) (run [UtteranceEnd 0, Stop]
       (snd (generateSpeech ''hi'' (run [] (new_WebSpeechSynthesis browser_env)))))) 0 =
       Some (Resolved \<lparr>res_player = 0, res_analyser = 0, duration = 2/5\<rparr>)"
    by (simp only: v)
  from A h1
  have rb: "\<not> isCancelled (step (Onload 0) (run [UtteranceEnd 0, Stop]
       (snd (generateSpeech ''hi'' (run [] (new_WebSpeechSynthesis browser_env))))))"
    by blast
  from A sa h2 h3
  have rc: "\<not> isGenerating (step (Onload 0) (run [UtteranceEnd 0, Stop]
       (snd (generateSpeech ''hi'' (run [] (new_WebSpeechSynthesis browser_env))))))"
    by blast
  from B sb k1 k2
  have rd: "isCancelled (step (Onload 0) (run [Stop]
       (snd (generateSpeech ''hi'' (run [] (new_WebSpeechSynthesis browser_env))))))"
    by blast
  from B k3
  have re: "isGenerating (step (Onload 0) (run [Stop]
       (snd (generateSpeech ''hi'' (run [] (new_WebSpeechSynthesis browser_env))))))"
    by blast
  show ?thesis using a p1 h1 h2 h3 ra rb rc p2 k1 k2 k3 rd re by - (intro conjI; assumption)
qed


section \<open>The waveform accessor\<close>

lemma getWaveformData_with_analyser:
  "analyser s = Some a \<Longrightarrow> getWaveformData s = Inr (waveform a)"
  by (simp add: getWaveformData_def)

text \<open>
  C5. \<open>getWaveformData()\<close> returns the analyser's buffer when there is an analyser. When
  there is none, as on an instance constructed without \<open>window\<close>, the call on \<open>null\<close>
  throws the runtime's \<open>TypeError\<close>: the method has no guard that would raise
  \<open>ComponentsUninitialized\<close>.
\<close>

theorem getWaveformData_without_analyser:
  "getWaveformData (new_WebSpeechSynthesis server_env) = Inl TypeError"
  by (simp add: getWaveformData_def new_WebSpeechSynthesis_def server_env_def)

section \<open>Voice selection\<close>

text \<open>On the voices-changed path the first voice is assigned before \<open>speak\<close>.\<close>

lemma voiceschanged_selects_first_voice:
  "spoken (the (synth (run [GenerateSpeech ''hi'', VoicesChanged [''v0'', ''v1'']]
       (new_WebSpeechSynthesis browser_env)))) =
     [\<lparr>u_text = ''hi'', u_voice = Some ''v0'', u_rate = 1\<rparr>]"
  by (simp add: browser_env_def eval_defs)

text \<open>
  C6. On the other path, the continuation of \<open>audioContext.resume()\<close>, the utterance is
  spoken as it was created: in a browser that has two voices from the start, the utterance
  handed to \<open>speak\<close> has no voice.
\<close>

theorem resume_speaks_without_voice:
  "voices (the (synth (new_WebSpeechSynthesis browser_env))) = [''v0'', ''v1''] \<and>
   spoken (the (synth (run [GenerateSpeech ''hi'', ResumeDone]
       (new_WebSpeechSynthesis browser_env)))) =
     [\<lparr>u_text = ''hi'', u_voice = None, u_rate = 1\<rparr>]"
  by (simp add: browser_env_def eval_defs)

section \<open>The duration estimate\<close>

lemma step_keeps_duration:
  "c < length (calls s) \<and> c_text (calls s ! c) = t \<and>
     (\<forall>v. settled (calls s ! c) = Resolved v \<longrightarrow> duration v = real (length t) / 5) \<Longrightarrow>
   c < length (calls (step e s)) \<and> c_text (calls (step e s) ! c) = t \<and>
     (\<forall>v. settled (calls (step e s) ! c) = Resolved v \<longrightarrow> duration v = real (length t) / 5)"
  by (cases e)
     (auto simp: op_defs Let_def settle_def is_wired_def estimatedDuration_def nth_append
                 nth_list_update
           split: option.splits prod.splits if_splits)

lemma run_keeps_duration:
  "c < length (calls s) \<and> c_text (calls s ! c) = t \<and>
     (\<forall>v. settled (calls s ! c) = Resolved v \<longrightarrow> duration v = real (length t) / 5) \<Longrightarrow>
   c < length (calls (run evs s)) \<and> c_text (calls (run evs s) ! c) = t \<and>
     (\<forall>v. settled (calls (run evs s) ! c) = Resolved v \<longrightarrow> duration v = real (length t) / 5)"
proof (induction evs arbitrary: s)
  case Nil
  then show ?case by simp
next
  case (Cons e evs)
  from Cons.IH [OF step_keeps_duration [OF Cons.prems]] show ?case by simp
qed

lemma generateSpeech_new_call:
  "generateSpeech t s = (Inr c, s1) \<Longrightarrow>
   c < length (calls s1) \<and> c_text (calls s1 ! c) = t \<and>
     (\<forall>v. settled (calls s1 ! c) \<noteq> Resolved v)"
  by (auto simp: generateSpeech_def executor_def reject_def settle_def Let_def nth_append
                 nth_list_update
           split: if_splits)

text \<open>
  C7. For a request \<open>generateSpeech t\<close> accepted in a state the instance can reach: after
  any run of events that leaves its promise pending, \<open>onload\<close> resolves it with a
  duration of the length of \<open>t\<close> divided by 5; and whenever the promise is resolved, the
  duration it carries is that number.
\<close>

theorem duration_is_length_over_five:
  assumes g: "generateSpeech t (run evs0 (new_WebSpeechSynthesis env)) = (Inr c, s1)"
  shows "(promise_of (run evs s1) c = Some Pending \<longrightarrow>
            (\<exists>v. promise_of (step (Onload c) (run evs s1)) c = Some (Resolved v) \<and>
                 duration v = real (length t) / 5)) \<and>
         (promise_of (run evs' s1) c = Some (Resolved v') \<longrightarrow>
            duration v' = real (length t) / 5)"
proof -
  have total: "\<exists>v. promise_of (step (Onload c) (run evs s1)) c = Some (Resolved v) \<and>
                 duration v = real (length t) / 5"
    if p: "promise_of (run evs s1) c = Some Pending"
  proof -
    note r = pending_request_ready [OF g p]
    from r obtain pl an where pl: "player (run evs s1) = Some pl"
      and an: "analyser (run evs s1) = Some an" by auto
    from r have w: "is_wired (run evs s1) c" and tx: "c_text (calls (run evs s1) ! c) = t"
      by simp_all
    from onload_resolves [OF w p pl an] tx show ?thesis by simp
  qed
  have partial: "duration v' = real (length t) / 5"
    if q: "promise_of (run evs' s1) c = Some (Resolved v')"
  proof -
    from generateSpeech_new_call [OF g]
    have "c < length (calls s1) \<and> c_text (calls s1 ! c) = t \<and>
       (\<forall>v. settled (calls s1 ! c) = Resolved v \<longrightarrow> duration v = real (length t) / 5)"
      by simp
    from run_keeps_duration [OF this, of evs'] q show ?thesis
      by (simp add: promise_of_def)
  qed
  from total partial show ?thesis by blast
qed

theorem duration_is_length_over_five_witness:
  "generateSpeech (replicate 50 (CHR ''a'')) (run [] (new_WebSpeechSynthesis browser_env)) =
     (Inr 0, snd (generateSpeech (replicate 50 (CHR ''a''))
                    (run [] (new_WebSpeechSynthesis browser_env)))) \<and>
   promise_of (run [UtteranceEnd 0]
       (snd (generateSpeech (replicate 50 (CHR ''a''))
              (run [] (new_WebSpeechSynthesis browser_env))))) 0 = Some Pending \<and>
   promise_of (run [UtteranceEnd 0, Onload 0]
       (snd (generateSpeech (replicate 50 (CHR ''a''))
              (run [] (new_WebSpeechSynthesis browser_env))))) 0 =
     Some (Resolved \<lparr>res_player = 0, res_analyser = 0, duration = 10\<rparr>) \<and>
   duration \<lparr>res_player = 0, res_analyser = 0, duration = 10\<rparr> =
     real (length (replicate 50 (CHR ''a''))) / 5 \<and>
   generateSpeech '''' (run [GenerateSpeech ''hi'', UtteranceEnd 0]
       (new_WebSpeechSynthesis browser_env)) =
     (Inr 1, snd (generateSpeech '''' (run [GenerateSpeech ''hi'', UtteranceEnd 0]
       (new_WebSpeechSynthesis browser_env)))) \<and>
   promise_of (run [Onload 1]
       (snd (generateSpeech '''' (run [GenerateSpeech ''hi'', UtteranceEnd 0]
         (new_WebSpeechSynthesis browser_env))))) 1 =
     Some (Resolved \<lparr>res_player = 1, res_analyser = 0, duration = 0\<rparr>) \<and>
   duration \<lparr>res_player = 1, res_analyser = 0, duration = 0\<rparr> =
     real (length (''''::string)) / 5"
proof -
  have a: "generateSpeech (replicate 50 (CHR ''a'')) (run [] (new_WebSpeechSynthesis browser_env)) =
     (Inr 0, snd (generateSpeech (replicate 50 (CHR ''a''))
                    (run [] (new_WebSpeechSynthesis browser_env))))"
    by (simp add: browser_env_def eval_defs)
  have p: "promise_of (run [UtteranceEnd 0]
       (snd (generateSpeech (replicate 50 (CHR ''a''))
              (run [] (new_WebSpeechSynthesis browser_env))))) 0 = Some Pending"
    by (simp add: browser_env_def eval_defs)
  have b: "promise_of (run [UtteranceEnd 0, Onload 0]
       (snd (generateSpeech (replicate 50 (CHR ''a''))
              (run [] (new_WebSpeechSynthesis browser_env))))) 0 =
     Some (Resolved \<lparr>res_player = 0, res_analyser = 0, duration = 10\<rparr>)"
    by (simp add: browser_env_def eval_defs)
  have c: "generateSpeech '''' (run [GenerateSpeech ''hi'', UtteranceEnd 0]
       (new_WebSpeechSynthesis browser_env)) =
     (Inr 1, snd (generateSpeech '''' (run [GenerateSpeech ''hi'', UtteranceEnd 0]
       (new_WebSpeechSynthesis browser_env))))"
    by (simp add: browser_env_def eval_defs)
  have d: "promise_of (run [Onload 1]
       (snd (generateSpeech '''' (run [GenerateSpeech ''hi'', UtteranceEnd 0]
         (new_WebSpeechSynthesis browser_env))))) 1 =
     Some (Resolved \<lparr>res_player = 1, res_analyser = 0, duration = 0\<rparr>)"
    by (simp add: browser_env_def eval_defs)
  from duration_is_length_over_five [OF a, where evs' = "[UtteranceEnd 0, Onload 0]"] b
  have e: "duration \<lparr>res_player = 0, res_analyser = 0, duration = 10\<rparr> =
     real (length (replicate 50 (CHR ''a''))) / 5" by blast
  from duration_is_length_over_five [OF c, where evs' = "[Onload 1]"] d
  have f: "duration \<lparr>res_player = 1, res_analyser = 0, duration = 0\<rparr> =
     real (length (''''::string)) / 5" by blast
  show ?thesis using a p b e c d f by - (intro conjI; assumption)
qed


section \<open>Pitch\<close>

text \<open>
  C8. With a player present, \<open>setPitch pitch\<close> sets the player's playback rate to
  \<open>clamp(1 + pitch/12, 0.5, 2.0)\<close> and changes nothing else in the session.
\<close>

theorem setPitch_sets_clamped_rate:
  "player s = Some p \<Longrightarrow>
   setPitch pitch s = s\<lparr>player := Some (p\<lparr>playbackRate := spec_clamp (1 + pitch / 12) (1/2) 2\<rparr>)\<rparr>"
  by (simp add: setPitch_def spec_clamp_def max_def min_def)

theorem setPitch_sets_clamped_rate_witness:
  "player (run [GenerateSpeech ''hi''] (new_WebSpeechSynthesis browser_env)) =
     Some \<lparr>pl_id = 0, playbackRate = 1, loop = False, connected = False, toDestination = False,
           stops = 0, seeks = [], pl_disposed = False\<rparr> \<and>
   map_option playbackRate
     (player (setPitch 0 (run [GenerateSpeech ''hi''] (new_WebSpeechSynthesis browser_env)))) = Some 1 \<and>
   map_option playbackRate
     (player (setPitch 24 (run [GenerateSpeech ''hi''] (new_WebSpeechSynthesis browser_env)))) = Some 2 \<and>
   map_option playbackRate
     (player (setPitch (- 24) (run [GenerateSpeech ''hi''] (new_WebSpeechSynthesis browser_env)))) =
     Some (1/2)"
proof -
  have a: "player (run [GenerateSpeech ''hi''] (new_WebSpeechSynthesis browser_env)) =
     Some \<lparr>pl_id = 0, playbackRate = 1, loop = False, connected = False, toDestination = False,
           stops = 0, seeks = [], pl_disposed = False\<rparr>"
    by (simp add: browser_env_def eval_defs)
  from setPitch_sets_clamped_rate [OF a, of 0] setPitch_sets_clamped_rate [OF a, of 24]
    setPitch_sets_clamped_rate [OF a, of "- 24"] a
  show ?thesis by (simp add: spec_clamp_def)
qed

section \<open>Teardown\<close>

text \<open>
  With an analyser and an audio context, and an engine if a call is generating,
  \<open>dispose()\<close> returns normally, releases the three handles and can be repeated.
\<close>

lemma dispose_with_handles:
  "analyser s = Some a \<Longrightarrow> audioContext s = Some ac \<Longrightarrow> isGenerating s \<longrightarrow> synth s \<noteq> None \<Longrightarrow>
   fst (dispose s) = None \<and>
   map_option pl_disposed (player (snd (dispose s))) = map_option (\<lambda>p. True) (player s) \<and>
   map_option an_disposed (analyser (snd (dispose s))) = Some True \<and>
   map_option closed (audioContext (snd (dispose s))) = Some True \<and>
   fst (dispose (snd (dispose s))) = None"
  by (auto simp: op_defs split: option.splits)

text \<open>
  C9. Only the player's release is guarded. On an instance whose handles were never
  created, \<open>dispose()\<close> throws a \<open>TypeError\<close> at \<open>this.analyser.dispose()\<close>.
\<close>

theorem dispose_without_handles_throws:
  "fst (dispose (new_WebSpeechSynthesis server_env)) = Some TypeError"
  by (simp add: server_env_def eval_defs)

section \<open>The flag after a components-uninitialized rejection\<close>

lemma step_stuck:
  "has_window s \<and> isGenerating s \<and> (\<forall>c. \<not> is_wired s c) \<Longrightarrow>
   has_window (step e s) \<and> isGenerating (step e s) \<and> (\<forall>c. \<not> is_wired (step e s) c)"
  by (cases e)
     (auto simp: op_defs Let_def is_wired_def split: option.splits prod.splits if_splits)

lemma run_stuck:
  "has_window s \<and> isGenerating s \<and> (\<forall>c. \<not> is_wired s c) \<Longrightarrow>
   has_window (run evs s) \<and> isGenerating (run evs s) \<and> (\<forall>c. \<not> is_wired (run evs s) c)"
proof (induction evs arbitrary: s)
  case Nil
  then show ?case by simp
next
  case (Cons e evs)
  from Cons.IH [OF step_stuck [OF Cons.prems]] show ?case by simp
qed

lemma uninitialized_rejection:
  "generateSpeech t s = (Inr c, s1) \<Longrightarrow>
   promise_of s1 c = Some (Rejected ComponentsUninitialized) \<Longrightarrow>
   has_window s1 \<and> isGenerating s1 \<and>
   (synth s = None \<or> audioContext s = None \<or> mediaStreamDestination s = None) \<and>
   (\<forall>c'. is_wired s1 c' \<longrightarrow> is_wired s c')"
  by (auto simp: generateSpeech_def executor_def reject_def settle_def promise_of_def
                 is_wired_def Let_def nth_append nth_list_update
           split: if_splits)

text \<open>
  C10. If a \<open>generateSpeech\<close> call on an instance is rejected with
  \<open>ComponentsUninitialized\<close>, then after every run of events \<open>isGenerating\<close> is still
  true and \<open>generateSpeech\<close> rejects with \<open>AlreadyInProgress\<close>, leaving the session as
  it is.
\<close>

theorem uninitialized_rejection_blocks_instance:
  "generateSpeech t (run evs0 (new_WebSpeechSynthesis env)) = (Inr c, s1) \<Longrightarrow>
   promise_of s1 c = Some (Rejected ComponentsUninitialized) \<Longrightarrow>
   isGenerating (run evs s1) \<and>
   generateSpeech t' (run evs s1) = (Inl AlreadyInProgress, run evs s1)"
proof -
  assume g: "generateSpeech t (run evs0 (new_WebSpeechSynthesis env)) = (Inr c, s1)"
    and r: "promise_of s1 c = Some (Rejected ComponentsUninitialized)"
  note u = uninitialized_rejection [OF g r]
  have "\<not> is_wired (run evs0 (new_WebSpeechSynthesis env)) c'" for c'
    using u reachable_wired_components [of evs0 env c'] by blast
  with u have "has_window s1 \<and> isGenerating s1 \<and> (\<forall>c. \<not> is_wired s1 c)" by blast
  from run_stuck [OF this, of evs] show ?thesis by (simp add: generateSpeech_def)
qed

theorem uninitialized_rejection_blocks_instance_witness:
  "generateSpeech ''hi'' (run [] (new_WebSpeechSynthesis no_speech_env)) =
     (Inr 0, snd (generateSpeech ''hi'' (run [] (new_WebSpeechSynthesis no_speech_env)))) \<and>
   promise_of (snd (generateSpeech ''hi'' (run [] (new_WebSpeechSynthesis no_speech_env)))) 0 =
     Some (Rejected ComponentsUninitialized) \<and>
   isGenerating (run [Onload 0, UtteranceEnd 0, UtteranceError 0 ''x'', Dispose]
     (snd (generateSpeech ''hi'' (run [] (new_WebSpeechSynthesis no_speech_env))))) \<and>
   fst (generateSpeech ''again'' (run [Onload 0, UtteranceEnd 0, UtteranceError 0 ''x'', Dispose]
     (snd (generateSpeech ''hi'' (run [] (new_WebSpeechSynthesis no_speech_env)))))) =
     Inl AlreadyInProgress"
proof -
  have a: "generateSpeech ''hi'' (run [] (new_WebSpeechSynthesis no_speech_env)) =
     (Inr 0, snd (generateSpeech ''hi'' (run [] (new_WebSpeechSynthesis no_speech_env))))"
    by (simp add: no_speech_env_def eval_defs)
  have b: "promise_of (snd (generateSpeech ''hi'' (run [] (new_WebSpeechSynthesis no_speech_env)))) 0 =
     Some (Rejected ComponentsUninitialized)"
    by (simp add: no_speech_env_def eval_defs)
  from uninitialized_rejection_blocks_instance [OF a b,
      of "[Onload 0, UtteranceEnd 0, UtteranceError 0 ''x'', Dispose]" "''again''"] a b
  show ?thesis by simp
qed

end
